theory Spec2Isabelle
  imports Complex_Main
begin

section \<open>Errors\<close>

text \<open>
  The exceptions that the functions of \<^verbatim>\<open>app/api/youtube.py\<close> can raise.
  \<open>VideoIdentifierError\<close> is the module's own exception class and carries the
  argument it was constructed with.  \<open>IndexError\<close> and \<open>ValueError\<close> are the built-in
  exceptions raised by list indexing, \<^verbatim>\<open>random.choice\<close> and \<^verbatim>\<open>int\<close>.
  \<open>ServiceError\<close> stands for whatever the shared \<^verbatim>\<open>yt_service\<close> client raises;
  the module neither catches nor translates it.
\<close>

datatype error =
    VideoIdentifierError string
  | IndexError
  | ValueError
  | ServiceError string

section \<open>The identifier pattern\<close>

text \<open>
  \<^verbatim>\<open>video_id_re\<close> is an alternation of five branches.  Each branch is a
  fixed-width lookbehind followed by one greedy repetition \<open>C+\<close> of a character class;
  the first branch is also followed by the lookahead \<^verbatim>\<open>(?=&)\<close>.  The string
  literal is not raw, so \<^verbatim>\<open>\n\<close> inside the classes is the newline character
  and \<^verbatim>\<open>\/\<close> is a plain slash; the dot of \<^verbatim>\<open>youtu.be\<close> is not escaped
  and stands for any character but newline.
\<close>

definition newline :: char where
  "newline = CHR 0x0A"

text \<open>The class \<^verbatim>\<open>[a-zA-Z0-9-]\<close>.\<close>

definition id_char :: "char \<Rightarrow> bool" where
  "id_char c \<longleftrightarrow>
     c \<in> set ''abcdefghijklmnopqrstuvwxyzABCDEFGHIJKLMNOPQRSTUVWXYZ0123456789-''"

text \<open>The class \<^verbatim>\<open>[^&\n]\<close>.\<close>

definition not_amp_nl :: "char \<Rightarrow> bool" where
  "not_amp_nl c \<longleftrightarrow> c \<noteq> CHR ''&'' \<and> c \<noteq> newline"

text \<open>The class \<^verbatim>\<open>[^"&\n]\<close>.\<close>

definition not_quote_amp_nl :: "char \<Rightarrow> bool" where
  "not_quote_amp_nl c \<longleftrightarrow> c \<noteq> CHR 0x22 \<and> c \<noteq> CHR ''&'' \<and> c \<noteq> newline"

text \<open>
  A position of the subject string is given by the characters behind it, nearest first
  (the reversed prefix), and the characters ahead of it.  The lookbehinds inspect the
  first two, six or nine characters behind the position.
\<close>

text \<open>\<^verbatim>\<open>(?<=(?:v|i)=)\<close>\<close>

definition lookbehind_vi_eq :: "string \<Rightarrow> bool" where
  "lookbehind_vi_eq behind \<longleftrightarrow>
     take 2 behind = rev ''v='' \<or> take 2 behind = rev ''i=''"

text \<open>\<^verbatim>\<open>(?<=(?:v|i)\/)\<close>\<close>

definition lookbehind_vi_slash :: "string \<Rightarrow> bool" where
  "lookbehind_vi_slash behind \<longleftrightarrow>
     take 2 behind = rev ''v/'' \<or> take 2 behind = rev ''i/''"

text \<open>\<^verbatim>\<open>(?<=embed\/)\<close>\<close>

definition lookbehind_embed :: "string \<Rightarrow> bool" where
  "lookbehind_embed behind \<longleftrightarrow> take 6 behind = rev ''embed/''"

text \<open>\<^verbatim>\<open>(?<=youtu.be\/)\<close>: nine characters, the sixth of them any but newline.\<close>

definition lookbehind_youtu_be :: "string \<Rightarrow> bool" where
  "lookbehind_youtu_be behind \<longleftrightarrow>
     take 3 behind = rev ''be/'' \<and>
     (case drop 3 behind of [] \<Rightarrow> False | c # _ \<Rightarrow> c \<noteq> newline) \<and>
     take 5 (drop 4 behind) = rev ''youtu''"

text \<open>
  A greedy repetition \<open>C+\<close> first takes the longest run of class characters and then
  gives characters back one at a time, down to a single character, until what follows
  the repetition (the continuation \<open>k\<close>, applied to the rest of the input) succeeds.
\<close>

fun backtrack :: "nat \<Rightarrow> string \<Rightarrow> (string \<Rightarrow> bool) \<Rightarrow> string option" where
  "backtrack 0 s k = None"
| "backtrack (Suc n) s k =
     (if k (drop (Suc n) s) then Some (take (Suc n) s) else backtrack n s k)"

definition greedy_plus :: "(char \<Rightarrow> bool) \<Rightarrow> string \<Rightarrow> (string \<Rightarrow> bool) \<Rightarrow> string option" where
  "greedy_plus C s k = backtrack (length (takeWhile C s)) s k"

text \<open>The lookahead \<^verbatim>\<open>(?=&)\<close> and the empty continuation of the other branches.\<close>

definition lookahead_amp :: "string \<Rightarrow> bool" where
  "lookahead_amp s \<longleftrightarrow> (case s of [] \<Rightarrow> False | c # _ \<Rightarrow> c = CHR ''&'')"

definition accept :: "string \<Rightarrow> bool" where
  "accept s \<longleftrightarrow> True"

text \<open>The five branches, each returning \<^verbatim>\<open>group(0)\<close> of its match.\<close>

definition branch1 :: "string \<Rightarrow> string \<Rightarrow> string option" where
  "branch1 behind ahead =
     (if lookbehind_vi_eq behind then greedy_plus id_char ahead lookahead_amp else None)"

definition branch2 :: "string \<Rightarrow> string \<Rightarrow> string option" where
  "branch2 behind ahead =
     (if lookbehind_vi_slash behind then greedy_plus not_amp_nl ahead accept else None)"

definition branch3 :: "string \<Rightarrow> string \<Rightarrow> string option" where
  "branch3 behind ahead =
     (if lookbehind_embed behind then greedy_plus not_quote_amp_nl ahead accept else None)"

definition branch4 :: "string \<Rightarrow> string \<Rightarrow> string option" where
  "branch4 behind ahead =
     (if lookbehind_vi_eq behind then greedy_plus not_amp_nl ahead accept else None)"

definition branch5 :: "string \<Rightarrow> string \<Rightarrow> string option" where
  "branch5 behind ahead =
     (if lookbehind_youtu_be behind then greedy_plus not_amp_nl ahead accept else None)"

text \<open>The alternation tries the branches from left to right at one position.\<close>

definition first_of :: "'a option \<Rightarrow> 'a option \<Rightarrow> 'a option" where
  "first_of a b = (case a of Some m \<Rightarrow> Some m | None \<Rightarrow> b)"

definition match_here :: "string \<Rightarrow> string \<Rightarrow> string option" where
  "match_here behind ahead =
     first_of (branch1 behind ahead)
       (first_of (branch2 behind ahead)
         (first_of (branch3 behind ahead)
           (first_of (branch4 behind ahead) (branch5 behind ahead))))"

text \<open>
  \<^verbatim>\<open>re.search\<close> tries the pattern at every position from the left, the end of the
  string included, and returns the first match.
\<close>

fun search :: "string \<Rightarrow> string \<Rightarrow> string option" where
  "search behind [] = match_here behind []"
| "search behind (c # cs) =
     (case match_here behind (c # cs) of
        Some m \<Rightarrow> Some m
      | None \<Rightarrow> search (c # behind) cs)"

definition re_search :: "string \<Rightarrow> string option" where
  "re_search url = search [] url"

text \<open>
  For statements about urls of a given shape: \<open>no_trigger pre\<close> says that none of the four
  lookbehinds of the pattern holds at any position of the text \<open>pre\<close>, its end included;
  that is, \<open>pre\<close> contains none of \<^verbatim>\<open>v=\<close>, \<^verbatim>\<open>i=\<close>, \<^verbatim>\<open>v/\<close>, \<^verbatim>\<open>i/\<close>,
  \<^verbatim>\<open>embed/\<close>, and no \<^verbatim>\<open>youtu\<close>, one character other than newline, \<^verbatim>\<open>be/\<close>.
\<close>

definition lookbehind_any :: "string \<Rightarrow> bool" where
  "lookbehind_any behind \<longleftrightarrow>
     lookbehind_vi_eq behind \<or> lookbehind_vi_slash behind \<or>
     lookbehind_embed behind \<or> lookbehind_youtu_be behind"

fun no_trigger_from :: "string \<Rightarrow> string \<Rightarrow> bool" where
  "no_trigger_from behind [] \<longleftrightarrow> \<not> lookbehind_any behind"
| "no_trigger_from behind (c # cs) \<longleftrightarrow>
     \<not> lookbehind_any behind \<and> no_trigger_from (c # behind) cs"

definition no_trigger :: "string \<Rightarrow> bool" where
  "no_trigger pre = no_trigger_from [] pre"

section \<open>Identifier extraction\<close>

definition extract_video_id_from_web_url :: "string \<Rightarrow> error + string" where
  "extract_video_id_from_web_url url =
     (case re_search url of
        None \<Rightarrow> Inl (VideoIdentifierError url)
      | Some m \<Rightarrow> Inr m)"

text \<open>
  \<^verbatim>\<open>uri[-11:]\<close>: a slice never raises; a start before the beginning of the string
  is clamped to the beginning.
\<close>

definition extract_video_id_from_api_uri :: "string \<Rightarrow> string" where
  "extract_video_id_from_api_uri uri = drop (length uri - 11) uri"

section \<open>Service records\<close>

text \<open>
  A \<^verbatim>\<open>gdata.youtube.YouTubeVideoEntry\<close> is used through four attribute paths only:
  \<^verbatim>\<open>media.title.text\<close>, \<^verbatim>\<open>media.description.text\<close>,
  \<^verbatim>\<open>media.duration.seconds\<close> (the text of an XML attribute) and \<^verbatim>\<open>id.text\<close>.
  A \<^verbatim>\<open>YouTubeVideoFeed\<close> is used through its list \<^verbatim>\<open>entry\<close>.
\<close>

record video_entry =
  media_title_text :: string
  media_description_text :: string
  media_duration_seconds :: string
  id_text :: string

record video_feed =
  entry :: "video_entry list"

text \<open>
  The built-in \<^verbatim>\<open>int\<close> of Python 2 (the module imports \<^verbatim>\<open>gdata\<close> and
  \<^verbatim>\<open>collections.Sequence\<close>) applied to a byte string: surrounding whitespace is
  dropped, one sign is allowed, whitespace between the sign and the digits is skipped
  as well, and what remains must be one or more decimal digits; anything else raises
  \<open>ValueError\<close>.
\<close>

definition is_space :: "char \<Rightarrow> bool" where
  "is_space c \<longleftrightarrow> c \<in> set [CHR '' '', CHR 0x09, CHR 0x0A, CHR 0x0B, CHR 0x0C, CHR 0x0D]"

definition strip :: "string \<Rightarrow> string" where
  "strip s = rev (dropWhile is_space (rev (dropWhile is_space s)))"

definition is_digit :: "char \<Rightarrow> bool" where
  "is_digit c \<longleftrightarrow> c \<in> set ''0123456789''"

definition digit_value :: "char \<Rightarrow> nat" where
  "digit_value c = of_char c - of_char CHR ''0''"

definition digits_value :: "string \<Rightarrow> nat" where
  "digits_value ds = foldl (\<lambda>acc c. 10 * acc + digit_value c) 0 ds"

definition parse_digits :: "string \<Rightarrow> error + nat" where
  "parse_digits ds =
     (if ds \<noteq> [] \<and> list_all is_digit ds then Inr (digits_value ds) else Inl ValueError)"

definition py_int :: "string \<Rightarrow> error + int" where
  "py_int s =
     (case strip s of
        [] \<Rightarrow> Inl ValueError
      | c # cs \<Rightarrow>
          if c = CHR ''-'' then
            (case parse_digits (dropWhile is_space cs) of
               Inl e \<Rightarrow> Inl e | Inr n \<Rightarrow> Inr (- int n))
          else if c = CHR ''+'' then
            (case parse_digits (dropWhile is_space cs) of
               Inl e \<Rightarrow> Inl e | Inr n \<Rightarrow> Inr (int n))
          else
            (case parse_digits (c # cs) of Inl e \<Rightarrow> Inl e | Inr n \<Rightarrow> Inr (int n)))"

text \<open>The decimal rendering of a natural number, as the service writes a duration.\<close>

function decimal :: "nat \<Rightarrow> string" where
  "decimal n =
     (if n < 10 then [''0123456789'' ! n]
      else decimal (n div 10) @ [''0123456789'' ! (n mod 10)])"
  by pat_completeness auto
termination
  by (relation "measure id") auto

declare decimal.simps [simp del]

section \<open>Video\<close>

text \<open>A \<^verbatim>\<open>Video\<close> object has the single attribute \<^verbatim>\<open>_entry\<close>.\<close>

record video =
  v_entry :: video_entry

definition Video_init :: "video_entry \<Rightarrow> video" where
  "Video_init e = \<lparr>v_entry = e\<rparr>"


definition title :: "video \<Rightarrow> string" where
  "title v = media_title_text (v_entry v)"

definition description :: "video \<Rightarrow> string" where
  "description v = media_description_text (v_entry v)"

definition duration :: "video \<Rightarrow> error + int" where
  "duration v = py_int (media_duration_seconds (v_entry v))"


section \<open>VideoCollection\<close>

text \<open>
  A \<^verbatim>\<open>VideoCollection\<close> object has the single attribute \<^verbatim>\<open>_videos\<close>, a list.
  The constructor starts from an empty list and appends the given videos one by one.
\<close>

record video_collection =
  videos :: "video list"

fun append_each :: "video list \<Rightarrow> video list \<Rightarrow> video list" where
  "append_each acc [] = acc"
| "append_each acc (v # vs) = append_each (acc @ [v]) vs"

definition VideoCollection_init :: "video list \<Rightarrow> video_collection" where
  "VideoCollection_init vs = \<lparr>videos = append_each [] vs\<rparr>"

text \<open>\<^verbatim>\<open>from_feed\<close>: the loop over \<^verbatim>\<open>feed.entry\<close> wraps and appends each entry.\<close>

fun wrap_each :: "video list \<Rightarrow> video_entry list \<Rightarrow> video list" where
  "wrap_each acc [] = acc"
| "wrap_each acc (e # es) = wrap_each (acc @ [Video_init e]) es"

definition from_feed :: "video_feed \<Rightarrow> video_collection" where
  "from_feed feed = VideoCollection_init (wrap_each [] (entry feed))"



text \<open>
  Indexing a list with an integer: a negative index counts from the end, and an index
  outside the list raises \<open>IndexError\<close>.
\<close>

definition list_getitem :: "'a list \<Rightarrow> int \<Rightarrow> error + 'a" where
  "list_getitem xs key =
     (let n = int (length xs); j = (if key < 0 then n + key else key)
      in if 0 \<le> j \<and> j < n then Inr (xs ! nat j) else Inl IndexError)"

definition getitem :: "video_collection \<Rightarrow> int \<Rightarrow> error + video" where
  "getitem c key = list_getitem (videos c) key"

definition len :: "video_collection \<Rightarrow> nat" where
  "len c = length (videos c)"



section \<open>The constructor on a store of list objects\<close>

text \<open>
  Python lists are objects that the caller and the collection may share.  A store holds
  the list objects; an address is an index into it.  \<^verbatim>\<open>self._videos = []\<close> allocates
  a new list object, and the \<^verbatim>\<open>for\<close> loop runs a list iterator over the argument:
  it keeps an index, stops when the index reaches the current length of the argument
  list, and otherwise reads the element at the index and appends it to the new list.
\<close>

type_synonym addr = nat

type_synonym store = "video list list"

record collection_object =
  videos_ref :: addr

definition new_list :: "store \<Rightarrow> addr \<times> store" where
  "new_list h = (length h, h @ [[]])"

definition list_append :: "store \<Rightarrow> addr \<Rightarrow> video \<Rightarrow> store" where
  "list_append h a v = h[a := h ! a @ [v]]"

partial_function (option) init_loop :: "addr \<Rightarrow> addr \<Rightarrow> nat \<Rightarrow> store \<Rightarrow> store option" where
  "init_loop src dst i h =
     (if i < length (h ! src)
      then init_loop src dst (Suc i) (list_append h dst (h ! src ! i))
      else Some h)"

definition VideoCollection_init_store :: "store \<Rightarrow> addr \<Rightarrow> (collection_object \<times> store) option" where
  "VideoCollection_init_store h src =
     (case new_list h of
        (dst, h1) \<Rightarrow>
          (case init_loop src dst 0 h1 of
             None \<Rightarrow> None
           | Some h2 \<Rightarrow> Some (\<lparr>videos_ref = dst\<rparr>, h2)))"

definition items_store :: "store \<Rightarrow> collection_object \<Rightarrow> video list" where
  "items_store h c = h ! videos_ref c"

definition len_store :: "store \<Rightarrow> collection_object \<Rightarrow> nat" where
  "len_store h c = length (items_store h c)"

section \<open>Facts about the pattern matcher\<close>

lemma backtrack_SomeD:
  "backtrack n s k = Some m \<Longrightarrow> \<exists>j. 0 < j \<and> j \<le> n \<and> m = take j s \<and> k (drop j s)"
proof (induction n)
  case 0
  then show ?case by simp
next
  case (Suc n)
  show ?case
  proof (cases "k (drop (Suc n) s)")
    case True
    with Suc.prems have "m = take (Suc n) s" by simp
    with True show ?thesis by blast
  next
    case False
    with Suc.prems have "backtrack n s k = Some m" by simp
    from Suc.IH[OF this] obtain j where "0 < j" "j \<le> n" "m = take j s" "k (drop j s)" by blast
    then show ?thesis by (intro exI[of _ j]) simp
  qed
qed

lemma backtrack_accept:
  "0 < n \<Longrightarrow> backtrack n s accept = Some (take n s)"
  by (cases n) (simp_all add: accept_def)

lemma greedy_plus_accept:
  "greedy_plus C s accept = (if takeWhile C s = [] then None else Some (takeWhile C s))"
proof (cases "takeWhile C s = []")
  case True
  then show ?thesis by (simp add: greedy_plus_def)
next
  case False
  then have "0 < length (takeWhile C s)" by simp
  from backtrack_accept[OF this, of s] show ?thesis
    using False by (simp add: greedy_plus_def takeWhile_eq_take[symmetric])
qed

lemma greedy_plus_SomeD:
  assumes "greedy_plus C s k = Some m"
  shows "m \<noteq> [] \<and> (\<forall>c\<in>set m. C c) \<and> (\<exists>j. 0 < j \<and> j \<le> length s \<and> m = take j s)"
proof -
  from assms obtain j where j: "0 < j" "j \<le> length (takeWhile C s)" "m = take j s"
    unfolding greedy_plus_def by (blast dest: backtrack_SomeD)
  have le: "length (takeWhile C s) \<le> length s" by (rule length_takeWhile_le)
  have "m = take j (takeWhile C s)"
    using j by (metis takeWhile_eq_take take_take min.absorb1 min.commute)
  then have "set m \<subseteq> set (takeWhile C s)" by (simp add: set_take_subset)
  then have "\<forall>c\<in>set m. C c" by (auto dest: set_takeWhileD)
  moreover have "m \<noteq> []" using j le by auto
  moreover have "j \<le> length s" using j le by simp
  ultimately show ?thesis using j by blast
qed

lemma id_char_not_amp_nl: "id_char c \<Longrightarrow> not_amp_nl c"
  by (auto simp: id_char_def not_amp_nl_def newline_def)

lemma not_quote_not_amp_nl: "not_quote_amp_nl c \<Longrightarrow> not_amp_nl c"
  by (simp add: not_quote_amp_nl_def not_amp_nl_def)

lemma match_here_SomeD:
  assumes "match_here behind ahead = Some m"
  shows "m \<noteq> [] \<and> (\<forall>c\<in>set m. not_amp_nl c) \<and> (\<exists>j. 0 < j \<and> j \<le> length ahead \<and> m = take j ahead)"
proof -
  from assms consider
      "greedy_plus id_char ahead lookahead_amp = Some m"
    | "greedy_plus not_amp_nl ahead accept = Some m"
    | "greedy_plus not_quote_amp_nl ahead accept = Some m"
    by (auto simp: match_here_def first_of_def branch1_def branch2_def branch3_def
          branch4_def branch5_def split: option.splits if_splits)
  then show ?thesis
  proof cases
    case 1
    from greedy_plus_SomeD[OF this] show ?thesis by (blast intro: id_char_not_amp_nl)
  next
    case 2
    from greedy_plus_SomeD[OF this] show ?thesis by blast
  next
    case 3
    from greedy_plus_SomeD[OF this] show ?thesis by (blast intro: not_quote_not_amp_nl)
  qed
qed

lemma search_SomeD:
  "search behind ahead = Some m \<Longrightarrow>
     \<exists>i. i \<le> length ahead \<and> match_here (rev (take i ahead) @ behind) (drop i ahead) = Some m"
proof (induction ahead arbitrary: behind)
  case Nil
  then show ?case by simp
next
  case (Cons c cs)
  show ?case
  proof (cases "match_here behind (c # cs)")
    case (Some m')
    with Cons.prems have "match_here behind (c # cs) = Some m" by simp
    then show ?thesis by (intro exI[of _ 0]) simp
  next
    case None
    with Cons.prems have "search (c # behind) cs = Some m" by simp
    from Cons.IH[OF this] obtain i where
      "i \<le> length cs" "match_here (rev (take i cs) @ c # behind) (drop i cs) = Some m" by blast
    then show ?thesis by (intro exI[of _ "Suc i"]) simp
  qed
qed

lemma search_None_iff:
  "search behind ahead = None \<longleftrightarrow>
     (\<forall>i\<le>length ahead. match_here (rev (take i ahead) @ behind) (drop i ahead) = None)"
proof (induction ahead arbitrary: behind)
  case Nil
  then show ?case by simp
next
  case (Cons c cs)
  have "(\<forall>i\<le>length (c # cs). match_here (rev (take i (c # cs)) @ behind) (drop i (c # cs)) = None)
      \<longleftrightarrow> match_here behind (c # cs) = None \<and>
          (\<forall>i\<le>length cs. match_here (rev (take i cs) @ c # behind) (drop i cs) = None)"
    (is "?L \<longleftrightarrow> ?A \<and> ?B")
  proof
    assume L: ?L
    have ?A using L[rule_format, of 0] by simp
    moreover have ?B
    proof (intro allI impI)
      fix i assume "i \<le> length cs"
      then show "match_here (rev (take i cs) @ c # behind) (drop i cs) = None"
        using L[rule_format, of "Suc i"] by simp
    qed
    ultimately show "?A \<and> ?B" ..
  next
    assume AB: "?A \<and> ?B"
    show ?L
    proof (intro allI impI)
      fix i assume i: "i \<le> length (c # cs)"
      show "match_here (rev (take i (c # cs)) @ behind) (drop i (c # cs)) = None"
      proof (cases i)
        case 0
        with AB show ?thesis by simp
      next
        case (Suc j)
        with i AB show ?thesis by simp
      qed
    qed
  qed
  then show ?case using Cons.IH[of "c # behind"] by (simp split: option.splits)
qed

lemma all_None_no_match:
  "\<forall>i\<le>n. f i = None \<Longrightarrow> \<not> (\<exists>i\<le>n. f i \<noteq> None)"
  by simp

lemma re_search_None_iff:
  "re_search url = None \<longleftrightarrow>
     (\<forall>i\<le>length url. match_here (rev (take i url)) (drop i url) = None)"
  using search_None_iff[of "[]" url] by (simp add: re_search_def)

lemma re_search_Some_match:
  "re_search url = Some m \<Longrightarrow>
     \<not> (\<forall>i\<le>length url. match_here (rev (take i url)) (drop i url) = None)"
  using re_search_None_iff[of url] by simp

lemma if_thenD: "(if A then B else C) \<Longrightarrow> A \<Longrightarrow> B"
  by simp

lemma if_elseD: "(if A then B else C) \<Longrightarrow> \<not> A \<Longrightarrow> C"
  by simp

lemma search_Some_leftmost:
  "search behind ahead = Some m \<Longrightarrow>
     \<exists>i. i \<le> length ahead
       \<and> match_here (rev (take i ahead) @ behind) (drop i ahead) = Some m
       \<and> (\<forall>k<i. match_here (rev (take k ahead) @ behind) (drop k ahead) = None)"
proof (induction ahead arbitrary: behind)
  case Nil
  then show ?case by simp
next
  case (Cons c cs)
  show ?case
  proof (cases "match_here behind (c # cs)")
    case (Some m')
    with Cons.prems have "match_here behind (c # cs) = Some m" by simp
    then show ?thesis by (intro exI[of _ 0]) simp
  next
    case None
    with Cons.prems have "search (c # behind) cs = Some m" by simp
    from Cons.IH[OF this] obtain i where i: "i \<le> length cs"
      "match_here (rev (take i cs) @ c # behind) (drop i cs) = Some m"
      "\<forall>k<i. match_here (rev (take k cs) @ c # behind) (drop k cs) = None" by blast
    have "\<forall>k<Suc i. match_here (rev (take k (c # cs)) @ behind) (drop k (c # cs)) = None"
    proof (intro allI impI)
      fix k assume k: "k < Suc i"
      show "match_here (rev (take k (c # cs)) @ behind) (drop k (c # cs)) = None"
      proof (cases k)
        case 0
        with None show ?thesis by simp
      next
        case (Suc k')
        with k have "k' < i" by simp
        with i(3) Suc show ?thesis by simp
      qed
    qed
    with i(1,2) show ?thesis by (intro exI[of _ "Suc i"]) simp
  qed
qed

lemma re_search_Some_leftmost:
  assumes "re_search url = Some m"
  shows "\<exists>i. i \<le> length url
       \<and> match_here (rev (take i url)) (drop i url) = Some m
       \<and> (\<forall>k<i. match_here (rev (take k url)) (drop k url) = None)"
  using search_Some_leftmost[of "[]" url m] assms by (simp add: re_search_def)

section \<open>Claims about identifier extraction\<close>

text \<open>
  Claim C2.  When no branch of the pattern matches at any position of the input,
  \<open>extract_video_id_from_web_url\<close> raises \<open>VideoIdentifierError\<close> carrying exactly the
  input string.  Otherwise it returns the captured substring: there is a leftmost
  position \<open>i\<close> at which the pattern matches, no earlier position matches, and the
  result is the text \<open>m\<close> that the first matching branch captures at \<open>i\<close>, a non-empty
  substring of the input starting at \<open>i\<close>.  The unsupported url
  \<^verbatim>\<open>http://vimeo.com/48100473\<close> is of the first kind.
\<close>

theorem extract_web_url_error_iff_no_match:
  "(if \<forall>i\<le>length url. match_here (rev (take i url)) (drop i url) = None
    then extract_video_id_from_web_url url = Inl (VideoIdentifierError url)
    else \<exists>i m. i \<le> length url
           \<and> match_here (rev (take i url)) (drop i url) = Some m
           \<and> (\<forall>k<i. match_here (rev (take k url)) (drop k url) = None)
           \<and> extract_video_id_from_web_url url = Inr m
           \<and> (\<exists>j. 0 < j \<and> i + j \<le> length url \<and> m = take j (drop i url)))
   \<and> extract_video_id_from_web_url ''http://vimeo.com/48100473''
       = Inl (VideoIdentifierError ''http://vimeo.com/48100473'')"
proof
  show "if \<forall>i\<le>length url. match_here (rev (take i url)) (drop i url) = None
    then extract_video_id_from_web_url url = Inl (VideoIdentifierError url)
    else \<exists>i m. i \<le> length url
           \<and> match_here (rev (take i url)) (drop i url) = Some m
           \<and> (\<forall>k<i. match_here (rev (take k url)) (drop k url) = None)
           \<and> extract_video_id_from_web_url url = Inr m
           \<and> (\<exists>j. 0 < j \<and> i + j \<le> length url \<and> m = take j (drop i url))"
  proof (cases "re_search url")
    case None
    then have "\<forall>i\<le>length url. match_here (rev (take i url)) (drop i url) = None"
      by (simp add: re_search_None_iff)
    with None show ?thesis
      by (simp add: extract_video_id_from_web_url_def)
  next
    case (Some m)
    from re_search_Some_leftmost[OF this] obtain i where
      i: "i \<le> length url" "match_here (rev (take i url)) (drop i url) = Some m"
         "\<forall>k<i. match_here (rev (take k url)) (drop k url) = None" by blast
    from match_here_SomeD[OF i(2)] obtain j where
      j: "0 < j" "j \<le> length (drop i url)" "m = take j (drop i url)" by blast
    have ij: "i + j \<le> length url" using i(1) j(2) by simp
    have e: "extract_video_id_from_web_url url = Inr m"
      using Some by (simp add: extract_video_id_from_web_url_def)
    have n: "\<not> (\<forall>i\<le>length url. match_here (rev (take i url)) (drop i url) = None)"
      by (rule re_search_Some_match[OF Some])
    have "\<exists>i m. i \<le> length url
           \<and> match_here (rev (take i url)) (drop i url) = Some m
           \<and> (\<forall>k<i. match_here (rev (take k url)) (drop k url) = None)
           \<and> extract_video_id_from_web_url url = Inr m
           \<and> (\<exists>j. 0 < j \<and> i + j \<le> length url \<and> m = take j (drop i url))"
      using i e j(1) ij j(3) by blast
    then show ?thesis by (simp only: if_not_P[OF n])
  qed
next
  show "extract_video_id_from_web_url ''http://vimeo.com/48100473''
       = Inl (VideoIdentifierError ''http://vimeo.com/48100473'')"
    by code_simp
qed

text \<open>
  Both cases of C2 occur: the vimeo url has no match and raises, the short-domain url
  has a match and returns it.
\<close>

theorem extract_web_url_error_iff_no_match_witness:
  "\<not> (\<exists>i\<le>length ''http://vimeo.com/48100473''.
      match_here (rev (take i ''http://vimeo.com/48100473''))
        (drop i ''http://vimeo.com/48100473'') \<noteq> None)
   \<and> extract_video_id_from_web_url ''http://vimeo.com/48100473''
       = Inl (VideoIdentifierError ''http://vimeo.com/48100473'')
   \<and> \<not> (\<forall>i\<le>length ''youtu.be/9bZkp7q19f0''.
      match_here (rev (take i ''youtu.be/9bZkp7q19f0'')) (drop i ''youtu.be/9bZkp7q19f0'') = None)
   \<and> (\<exists>i m. i \<le> length ''youtu.be/9bZkp7q19f0''
         \<and> match_here (rev (take i ''youtu.be/9bZkp7q19f0'')) (drop i ''youtu.be/9bZkp7q19f0'') = Some m
         \<and> (\<forall>k<i. match_here (rev (take k ''youtu.be/9bZkp7q19f0''))
                (drop k ''youtu.be/9bZkp7q19f0'') = None)
         \<and> extract_video_id_from_web_url ''youtu.be/9bZkp7q19f0'' = Inr m
         \<and> (\<exists>j. 0 < j \<and> i + j \<le> length ''youtu.be/9bZkp7q19f0''
                \<and> m = take j (drop i ''youtu.be/9bZkp7q19f0'')))
   \<and> extract_video_id_from_web_url ''youtu.be/9bZkp7q19f0'' = Inr ''9bZkp7q19f0''"
proof -
  have s1: "re_search ''http://vimeo.com/48100473'' = None" by code_simp
  have h1: "\<forall>i\<le>length ''http://vimeo.com/48100473''.
      match_here (rev (take i ''http://vimeo.com/48100473''))
        (drop i ''http://vimeo.com/48100473'') = None"
    by (rule re_search_None_iff[THEN iffD1, OF s1])
  have s2: "re_search ''youtu.be/9bZkp7q19f0'' = Some ''9bZkp7q19f0''" by code_simp
  have h2: "\<not> (\<forall>i\<le>length ''youtu.be/9bZkp7q19f0''.
      match_here (rev (take i ''youtu.be/9bZkp7q19f0'')) (drop i ''youtu.be/9bZkp7q19f0'') = None)"
    by (rule re_search_Some_match[OF s2])
  have e1: "extract_video_id_from_web_url ''http://vimeo.com/48100473''
       = Inl (VideoIdentifierError ''http://vimeo.com/48100473'')"
    by (rule if_thenD[OF extract_web_url_error_iff_no_match[THEN conjunct1] h1])
  have e2: "\<exists>i m. i \<le> length ''youtu.be/9bZkp7q19f0''
         \<and> match_here (rev (take i ''youtu.be/9bZkp7q19f0'')) (drop i ''youtu.be/9bZkp7q19f0'') = Some m
         \<and> (\<forall>k<i. match_here (rev (take k ''youtu.be/9bZkp7q19f0''))
                (drop k ''youtu.be/9bZkp7q19f0'') = None)
         \<and> extract_video_id_from_web_url ''youtu.be/9bZkp7q19f0'' = Inr m
         \<and> (\<exists>j. 0 < j \<and> i + j \<le> length ''youtu.be/9bZkp7q19f0''
                \<and> m = take j (drop i ''youtu.be/9bZkp7q19f0''))"
    by (rule if_elseD[OF extract_web_url_error_iff_no_match[THEN conjunct1] h2])
  have e3: "extract_video_id_from_web_url ''youtu.be/9bZkp7q19f0'' = Inr ''9bZkp7q19f0''"
    by code_simp
  have h1': "\<not> (\<exists>i\<le>length ''http://vimeo.com/48100473''.
      match_here (rev (take i ''http://vimeo.com/48100473''))
        (drop i ''http://vimeo.com/48100473'') \<noteq> None)"
    by (rule all_None_no_match[OF h1])
  show ?thesis
    by (intro conjI) (rule h1', rule e1, rule h2, rule e2, rule e3)
qed

text \<open>
  Claim C3.  \<open>extract_video_id_from_api_uri\<close> is total: for every string it returns
  the suffix of the string of length eleven, or the whole string when the string is
  shorter than that, and never raises.  On the documented uri it returns
  \<^verbatim>\<open>9bZkp7q19f0\<close>.
\<close>

theorem extract_api_uri_last_11:
  "(\<exists>pre. uri = pre @ extract_video_id_from_api_uri uri)
   \<and> length (extract_video_id_from_api_uri uri) = min 11 (length uri)
   \<and> (length uri < 11 \<longrightarrow> extract_video_id_from_api_uri uri = uri)
   \<and> extract_video_id_from_api_uri ''http://gdata.youtube.com/feeds/api/videos/9bZkp7q19f0''
       = ''9bZkp7q19f0''"
proof (intro conjI)
  have "uri = take (length uri - 11) uri @ extract_video_id_from_api_uri uri"
    by (simp add: extract_video_id_from_api_uri_def)
  then show "\<exists>pre. uri = pre @ extract_video_id_from_api_uri uri" ..
  show "length (extract_video_id_from_api_uri uri) = min 11 (length uri)"
    by (simp add: extract_video_id_from_api_uri_def)
  show "length uri < 11 \<longrightarrow> extract_video_id_from_api_uri uri = uri"
    by (simp add: extract_video_id_from_api_uri_def)
  show "extract_video_id_from_api_uri ''http://gdata.youtube.com/feeds/api/videos/9bZkp7q19f0''
       = ''9bZkp7q19f0''"
    by (simp add: extract_video_id_from_api_uri_def)
qed

text \<open>A string shorter than eleven characters is returned whole.\<close>

theorem extract_api_uri_last_11_witness:
  "length ''9bZkp'' < 11 \<and> extract_video_id_from_api_uri ''9bZkp'' = ''9bZkp''"
  using extract_api_uri_last_11[of "''9bZkp''"] by simp

text \<open>
  Claim C9.  Whenever \<open>extract_video_id_from_web_url\<close> succeeds, the identifier it
  returns is non-empty and contains neither \<^verbatim>\<open>&\<close> nor a newline.
\<close>

theorem extract_web_url_result_nonempty_no_amp:
  assumes "extract_video_id_from_web_url url = Inr m"
  shows "m \<noteq> [] \<and> CHR ''&'' \<notin> set m \<and> newline \<notin> set m"
proof -
  from assms have "search [] url = Some m"
    by (simp add: extract_video_id_from_web_url_def re_search_def split: option.splits)
  from search_SomeD[OF this] obtain i where
    "match_here (rev (take i url) @ []) (drop i url) = Some m" by blast
  from match_here_SomeD[OF this] have "m \<noteq> []" and all: "\<forall>c\<in>set m. not_amp_nl c" by blast+
  from all have "CHR ''&'' \<notin> set m" "newline \<notin> set m"
    by (auto simp: not_amp_nl_def)
  with \<open>m \<noteq> []\<close> show ?thesis by simp
qed

text \<open>The documented watch-page url succeeds, and its result has the three properties.\<close>

theorem extract_web_url_result_nonempty_no_amp_witness:
  "extract_video_id_from_web_url ''http://www.youtube.com/watch?v=9bZkp7q19f0&feature=g-all-f'' = Inr ''9bZkp7q19f0''
   \<and> ''9bZkp7q19f0'' \<noteq> [] \<and> CHR ''&'' \<notin> set ''9bZkp7q19f0'' \<and> newline \<notin> set ''9bZkp7q19f0''"
proof -
  have h: "extract_video_id_from_web_url ''http://www.youtube.com/watch?v=9bZkp7q19f0&feature=g-all-f'' = Inr ''9bZkp7q19f0''"
    by code_simp
  from extract_web_url_result_nonempty_no_amp[OF h] h show ?thesis by blast
qed

section \<open>Facts about the integer conversion\<close>

lemma digit_cases:
  "d < 10 \<Longrightarrow> d = 0 \<or> d = 1 \<or> d = 2 \<or> d = 3 \<or> d = 4 \<or> d = 5 \<or> d = 6 \<or> d = 7 \<or> d = 8 \<or> d = (9::nat)"
  by arith

lemma is_digit_nth: "d < 10 \<Longrightarrow> is_digit (''0123456789'' ! d)"
  by (drule digit_cases) (auto simp: is_digit_def)

lemma digit_value_nth: "d < 10 \<Longrightarrow> digit_value (''0123456789'' ! d) = d"
  by (drule digit_cases) (auto simp: digit_value_def)

lemma not_space_digit: "is_digit c \<Longrightarrow> \<not> is_space c"
  by (auto simp: is_digit_def is_space_def)

lemma not_sign_digit: "is_digit c \<Longrightarrow> c \<noteq> CHR ''-'' \<and> c \<noteq> CHR ''+''"
  by (auto simp: is_digit_def)

lemma decimal_digits: "decimal n \<noteq> [] \<and> list_all is_digit (decimal n)"
proof (induction n rule: decimal.induct)
  case (1 n)
  show ?case
  proof (cases "n < 10")
    case True
    then show ?thesis by (subst decimal.simps, subst decimal.simps) (simp add: is_digit_nth)
  next
    case False
    with 1 have "list_all is_digit (decimal (n div 10))" by simp
    moreover have "is_digit (''0123456789'' ! (n mod 10))" by (rule is_digit_nth) simp
    ultimately show ?thesis using False
      by (subst decimal.simps, subst (2) decimal.simps) simp
  qed
qed

lemma digits_value_snoc: "digits_value (ds @ [c]) = 10 * digits_value ds + digit_value c"
  by (simp add: digits_value_def)

lemma digits_value_decimal: "digits_value (decimal n) = n"
proof (induction n rule: decimal.induct)
  case (1 n)
  show ?case
  proof (cases "n < 10")
    case True
    then show ?thesis
      by (subst decimal.simps) (simp add: digits_value_def digit_value_nth)
  next
    case False
    with 1 have "digits_value (decimal (n div 10)) = n div 10" by simp
    then show ?thesis using False
      by (subst decimal.simps) (simp add: digits_value_snoc digit_value_nth)
  qed
qed

lemma dropWhile_id: "xs \<noteq> [] \<Longrightarrow> \<not> P (hd xs) \<Longrightarrow> dropWhile P xs = xs"
  by (cases xs) simp_all

lemma strip_digits:
  assumes "ds \<noteq> []" "list_all is_digit ds"
  shows "strip ds = ds"
proof -
  have "is_digit (hd ds)" using assms by (cases ds) simp_all
  then have 1: "dropWhile is_space ds = ds"
    using assms(1) by (intro dropWhile_id) (simp_all add: not_space_digit)
  have "is_digit (last ds)" using assms by (simp add: list_all_iff)
  then have "\<not> is_space (hd (rev ds))" using assms(1) by (simp add: hd_rev not_space_digit)
  then have 2: "dropWhile is_space (rev ds) = rev ds"
    using assms(1) by (intro dropWhile_id) simp_all
  show ?thesis by (simp add: strip_def 1 2)
qed

lemma py_int_digits:
  assumes "ds \<noteq> []" "list_all is_digit ds"
  shows "py_int ds = Inr (int (digits_value ds))"
proof -
  obtain c cs where ds: "ds = c # cs" using assms(1) by (cases ds) auto
  then have "is_digit c" using assms(2) by simp
  then have "c \<noteq> CHR ''-''" "c \<noteq> CHR ''+''" by (simp_all add: not_sign_digit)
  moreover have "strip ds = c # cs" using strip_digits[OF assms] ds by simp
  moreover have "parse_digits (c # cs) = Inr (digits_value ds)"
    using assms ds by (simp add: parse_digits_def)
  ultimately show ?thesis by (simp add: py_int_def)
qed

lemma py_int_decimal: "py_int (decimal n) = Inr (int n)"
  using py_int_digits[of "decimal n"] decimal_digits[of n] digits_value_decimal[of n]
  by simp

section \<open>Facts about collections\<close>

lemma append_each_eq: "append_each acc vs = acc @ vs"
  by (induction vs arbitrary: acc) simp_all

lemma wrap_each_eq: "wrap_each acc es = acc @ map Video_init es"
  by (induction es arbitrary: acc) simp_all

lemma videos_VideoCollection_init: "videos (VideoCollection_init vs) = vs"
  by (simp add: VideoCollection_init_def append_each_eq)

lemma videos_from_feed: "videos (from_feed feed) = map Video_init (entry feed)"
  by (simp add: from_feed_def videos_VideoCollection_init wrap_each_eq)

lemma list_getitem_nat: "i < length xs \<Longrightarrow> list_getitem xs (int i) = Inr (xs ! i)"
  by (simp add: list_getitem_def)

lemma list_getitem_empty: "list_getitem [] key = Inl IndexError"
  by (simp add: list_getitem_def)




section \<open>Claims about Video and VideoCollection\<close>

text \<open>
  Claim C8.  A \<open>Video\<close> built from a record stores exactly that record; \<open>title\<close> and
  \<open>description\<close> return the record's two text fields unchanged; \<open>duration\<close> is the
  integer conversion of the record's duration field, so a field holding the decimal
  rendering of \<open>n\<close> seconds gives \<open>n\<close>.
\<close>

theorem video_accessors_project_record:
  "v_entry (Video_init e) = e
   \<and> title (Video_init e) = media_title_text e
   \<and> description (Video_init e) = media_description_text e
   \<and> duration (Video_init e) = py_int (media_duration_seconds e)
   \<and> (\<forall>n. media_duration_seconds e = decimal n \<longrightarrow> duration (Video_init e) = Inr (int n))"
  by (simp add: Video_init_def title_def description_def duration_def py_int_decimal)

text \<open>A record with a duration field of \<^verbatim>\<open>252\<close> gives 252 seconds.\<close>

theorem video_accessors_project_record_witness:
  "media_duration_seconds
     \<lparr>media_title_text = ''Gangnam Style'', media_description_text = ''PSY'',
      media_duration_seconds = ''252'',
      id_text = ''http://gdata.youtube.com/feeds/api/videos/9bZkp7q19f0''\<rparr> = decimal 252
   \<and> duration (Video_init
     \<lparr>media_title_text = ''Gangnam Style'', media_description_text = ''PSY'',
      media_duration_seconds = ''252'',
      id_text = ''http://gdata.youtube.com/feeds/api/videos/9bZkp7q19f0''\<rparr>) = Inr 252
   \<and> title (Video_init
     \<lparr>media_title_text = ''Gangnam Style'', media_description_text = ''PSY'',
      media_duration_seconds = ''252'',
      id_text = ''http://gdata.youtube.com/feeds/api/videos/9bZkp7q19f0''\<rparr>) = ''Gangnam Style''"
proof -
  let ?e = "\<lparr>media_title_text = ''Gangnam Style'', media_description_text = ''PSY'',
      media_duration_seconds = ''252'',
      id_text = ''http://gdata.youtube.com/feeds/api/videos/9bZkp7q19f0''\<rparr>"
  have d: "decimal 252 = ''252''" by code_simp
  have h: "media_duration_seconds ?e = decimal 252" by (simp only: d video_entry.simps)
  have all: "\<forall>n. media_duration_seconds ?e = decimal n \<longrightarrow> duration (Video_init ?e) = Inr (int n)"
    by (rule video_accessors_project_record[of ?e, THEN conjunct2, THEN conjunct2, THEN conjunct2, THEN conjunct2])
  have "duration (Video_init ?e) = Inr (int 252)"
    by (rule all[rule_format, OF h])
  then have dur: "duration (Video_init ?e) = Inr 252" by simp
  have t: "title (Video_init ?e) = ''Gangnam Style''"
    using video_accessors_project_record[of ?e, THEN conjunct2, THEN conjunct1]
    by (simp only: video_entry.simps)
  show ?thesis by (intro conjI) (rule h, rule dur, rule t)
qed

text \<open>
  Claim C6.  \<open>from_feed\<close> wraps each entry of the feed as a \<open>Video\<close> without calling
  the service (it has no service argument), keeps the order of the feed, and gives a
  collection whose length is the number of entries: item \<open>i\<close> of the collection is the
  video of entry \<open>i\<close> of the feed.
\<close>

theorem from_feed_preserves_order:
  "videos (from_feed feed) = map Video_init (entry feed)
   \<and> len (from_feed feed) = length (entry feed)
   \<and> (\<forall>i<length (entry feed).
         getitem (from_feed feed) (int i) = Inr (Video_init (entry feed ! i)))"
  by (simp add: len_def getitem_def videos_from_feed list_getitem_nat)

text \<open>A feed with the three entries A, B, C gives a collection of length three with A, B, C at indices 0, 1, 2.\<close>

theorem from_feed_preserves_order_witness:
  "len (from_feed \<lparr>entry =
      [\<lparr>media_title_text = ''A'', media_description_text = ''a'', media_duration_seconds = ''1'', id_text = ''x''\<rparr>,
       \<lparr>media_title_text = ''B'', media_description_text = ''b'', media_duration_seconds = ''2'', id_text = ''y''\<rparr>,
       \<lparr>media_title_text = ''C'', media_description_text = ''c'', media_duration_seconds = ''3'', id_text = ''z''\<rparr>]\<rparr>) = 3
   \<and> getitem (from_feed \<lparr>entry =
      [\<lparr>media_title_text = ''A'', media_description_text = ''a'', media_duration_seconds = ''1'', id_text = ''x''\<rparr>,
       \<lparr>media_title_text = ''B'', media_description_text = ''b'', media_duration_seconds = ''2'', id_text = ''y''\<rparr>,
       \<lparr>media_title_text = ''C'', media_description_text = ''c'', media_duration_seconds = ''3'', id_text = ''z''\<rparr>]\<rparr>) 0
       = Inr (Video_init \<lparr>media_title_text = ''A'', media_description_text = ''a'', media_duration_seconds = ''1'', id_text = ''x''\<rparr>)
   \<and> getitem (from_feed \<lparr>entry =
      [\<lparr>media_title_text = ''A'', media_description_text = ''a'', media_duration_seconds = ''1'', id_text = ''x''\<rparr>,
       \<lparr>media_title_text = ''B'', media_description_text = ''b'', media_duration_seconds = ''2'', id_text = ''y''\<rparr>,
       \<lparr>media_title_text = ''C'', media_description_text = ''c'', media_duration_seconds = ''3'', id_text = ''z''\<rparr>]\<rparr>) 1
       = Inr (Video_init \<lparr>media_title_text = ''B'', media_description_text = ''b'', media_duration_seconds = ''2'', id_text = ''y''\<rparr>)
   \<and> getitem (from_feed \<lparr>entry =
      [\<lparr>media_title_text = ''A'', media_description_text = ''a'', media_duration_seconds = ''1'', id_text = ''x''\<rparr>,
       \<lparr>media_title_text = ''B'', media_description_text = ''b'', media_duration_seconds = ''2'', id_text = ''y''\<rparr>,
       \<lparr>media_title_text = ''C'', media_description_text = ''c'', media_duration_seconds = ''3'', id_text = ''z''\<rparr>]\<rparr>) 2
       = Inr (Video_init \<lparr>media_title_text = ''C'', media_description_text = ''c'', media_duration_seconds = ''3'', id_text = ''z''\<rparr>)"
proof -
  let ?A = "\<lparr>media_title_text = ''A'', media_description_text = ''a'', media_duration_seconds = ''1'', id_text = ''x''\<rparr>"
  let ?B = "\<lparr>media_title_text = ''B'', media_description_text = ''b'', media_duration_seconds = ''2'', id_text = ''y''\<rparr>"
  let ?C = "\<lparr>media_title_text = ''C'', media_description_text = ''c'', media_duration_seconds = ''3'', id_text = ''z''\<rparr>"
  let ?f = "\<lparr>entry = [?A, ?B, ?C]\<rparr>"
  note th = from_feed_preserves_order[of ?f]
  have l: "len (from_feed ?f) = 3" using th[THEN conjunct2, THEN conjunct1] by simp
  note items = th[THEN conjunct2, THEN conjunct2, rule_format]
  have i0: "getitem (from_feed ?f) 0 = Inr (Video_init ?A)" using items[of 0] by simp
  have i1: "getitem (from_feed ?f) 1 = Inr (Video_init ?B)" using items[of 1] by simp
  have i2: "getitem (from_feed ?f) 2 = Inr (Video_init ?C)" using items[of 2] by simp
  show ?thesis by (intro conjI) (rule l, rule i0, rule i1, rule i2)
qed

section \<open>Facts about batch construction\<close>





section \<open>Claims about random selection and batch construction\<close>







section \<open>Facts about the constructor on a store\<close>

lemma init_loop_copies:
  "src < length h \<Longrightarrow> dst < length h \<Longrightarrow> src \<noteq> dst \<Longrightarrow> i \<le> length (h ! src) \<Longrightarrow>
     init_loop src dst i h = Some (h[dst := h ! dst @ drop i (h ! src)])"
proof (induction "length (h ! src) - i" arbitrary: i h)
  case 0
  then have "i = length (h ! src)" by simp
  then show ?case by (subst init_loop.simps) simp
next
  case (Suc n)
  then have lt: "i < length (h ! src)" by simp
  let ?h = "list_append h dst (h ! src ! i)"
  have src': "?h ! src = h ! src" using Suc.prems by (simp add: list_append_def)
  have len': "length ?h = length h" by (simp add: list_append_def)
  have dst': "?h ! dst = h ! dst @ [h ! src ! i]" using Suc.prems by (simp add: list_append_def)
  have "n = length (?h ! src) - Suc i" using Suc.hyps(2) src' by simp
  moreover have "src < length ?h" "dst < length ?h" using Suc.prems len' by simp_all
  moreover have "Suc i \<le> length (?h ! src)" using lt src' by simp
  ultimately have "init_loop src dst (Suc i) ?h
      = Some (?h[dst := ?h ! dst @ drop (Suc i) (?h ! src)])"
    using Suc.prems(3) by (intro Suc.hyps(1)) simp_all
  also have "?h[dst := ?h ! dst @ drop (Suc i) (?h ! src)]
      = h[dst := h ! dst @ drop i (h ! src)]"
  proof -
    have "?h[dst := ?h ! dst @ drop (Suc i) (?h ! src)]
        = h[dst := ?h ! dst @ drop (Suc i) (?h ! src)]"
      by (simp add: list_append_def)
    also have "\<dots> = h[dst := (h ! dst @ [h ! src ! i]) @ drop (Suc i) (h ! src)]"
      by (simp only: src' dst')
    also have "\<dots> = h[dst := h ! dst @ drop i (h ! src)]"
      using lt by (simp add: Cons_nth_drop_Suc)
    finally show ?thesis .
  qed
  finally show ?case using lt by (subst init_loop.simps) simp
qed

lemma VideoCollection_init_store_eq:
  assumes "src < length h"
  shows "VideoCollection_init_store h src = Some (\<lparr>videos_ref = length h\<rparr>, h @ [h ! src])"
proof -
  let ?h1 = "h @ [[]]"
  have "init_loop src (length h) 0 ?h1
      = Some (?h1[length h := ?h1 ! length h @ drop 0 (?h1 ! src)])"
    using assms by (intro init_loop_copies) simp_all
  moreover have "?h1[length h := ?h1 ! length h @ drop 0 (?h1 ! src)] = h @ [h ! src]"
    using assms by (simp add: nth_append)
  ultimately show ?thesis
    by (simp add: VideoCollection_init_store_def new_list_def)
qed

section \<open>Claims about the constructor\<close>

text \<open>
  Claim C10.  The constructor allocates a new list object and copies the videos of its
  argument into it: called on the list at address \<open>src\<close>, it returns, it leaves every
  existing list object as it was, and the collection's list is a new object holding the
  argument's videos in order.  Whatever is later written to the caller's list, or to any
  other list object but the collection's own, the collection's items and length stay the
  same.  The default argument is a list object that stays empty, since the constructor
  writes to no existing list; constructing from an empty list gives length zero.
\<close>

theorem VideoCollection_init_copies:
  assumes "src < length h"
  shows "\<exists>c h'. VideoCollection_init_store h src = Some (c, h')
           \<and> videos_ref c = length h \<and> videos_ref c \<noteq> src
           \<and> h' = h @ [h ! src]
           \<and> items_store h' c = h ! src
           \<and> (\<forall>a ys. a \<noteq> videos_ref c \<longrightarrow>
                 items_store (h'[a := ys]) c = h ! src
                 \<and> len_store (h'[a := ys]) c = length (h ! src))
           \<and> (h ! src = [] \<longrightarrow> len_store h' c = 0 \<and> len (VideoCollection_init (h ! src)) = 0)"
proof -
  let ?c = "\<lparr>videos_ref = length h\<rparr>"
  let ?h' = "h @ [h ! src]"
  have 1: "VideoCollection_init_store h src = Some (?c, ?h')"
    by (rule VideoCollection_init_store_eq[OF assms])
  have 2: "videos_ref ?c = length h" by simp
  have 3: "videos_ref ?c \<noteq> src" using assms by simp
  have 4: "items_store ?h' ?c = h ! src" by (simp add: items_store_def)
  have 5: "\<forall>a ys. a \<noteq> videos_ref ?c \<longrightarrow>
                 items_store (?h'[a := ys]) ?c = h ! src
                 \<and> len_store (?h'[a := ys]) ?c = length (h ! src)"
    by (simp add: items_store_def len_store_def)
  have 6: "h ! src = [] \<longrightarrow> len_store ?h' ?c = 0 \<and> len (VideoCollection_init (h ! src)) = 0"
    by (simp add: items_store_def len_store_def len_def videos_VideoCollection_init)
  from 1 2 3 4 5 6 show ?thesis by blast
qed

text \<open>
  A caller's list of two videos at address 0: the collection's list is the new object at
  address 1, and appending a third video to the caller's list afterwards leaves the
  collection with its two videos.
\<close>

theorem VideoCollection_init_copies_witness:
  "(0::nat) < length
      [[Video_init \<lparr>media_title_text = ''A'', media_description_text = ''a'', media_duration_seconds = ''1'', id_text = ''x''\<rparr>,
        Video_init \<lparr>media_title_text = ''B'', media_description_text = ''b'', media_duration_seconds = ''2'', id_text = ''y''\<rparr>]]
   \<and> VideoCollection_init_store
      [[Video_init \<lparr>media_title_text = ''A'', media_description_text = ''a'', media_duration_seconds = ''1'', id_text = ''x''\<rparr>,
        Video_init \<lparr>media_title_text = ''B'', media_description_text = ''b'', media_duration_seconds = ''2'', id_text = ''y''\<rparr>]] 0
     = Some (\<lparr>videos_ref = 1\<rparr>,
      [[Video_init \<lparr>media_title_text = ''A'', media_description_text = ''a'', media_duration_seconds = ''1'', id_text = ''x''\<rparr>,
        Video_init \<lparr>media_title_text = ''B'', media_description_text = ''b'', media_duration_seconds = ''2'', id_text = ''y''\<rparr>],
       [Video_init \<lparr>media_title_text = ''A'', media_description_text = ''a'', media_duration_seconds = ''1'', id_text = ''x''\<rparr>,
        Video_init \<lparr>media_title_text = ''B'', media_description_text = ''b'', media_duration_seconds = ''2'', id_text = ''y''\<rparr>]])
   \<and> items_store
      (list_append
        [[Video_init \<lparr>media_title_text = ''A'', media_description_text = ''a'', media_duration_seconds = ''1'', id_text = ''x''\<rparr>,
          Video_init \<lparr>media_title_text = ''B'', media_description_text = ''b'', media_duration_seconds = ''2'', id_text = ''y''\<rparr>],
         [Video_init \<lparr>media_title_text = ''A'', media_description_text = ''a'', media_duration_seconds = ''1'', id_text = ''x''\<rparr>,
          Video_init \<lparr>media_title_text = ''B'', media_description_text = ''b'', media_duration_seconds = ''2'', id_text = ''y''\<rparr>]]
        0 (Video_init \<lparr>media_title_text = ''C'', media_description_text = ''c'', media_duration_seconds = ''3'', id_text = ''z''\<rparr>))
      \<lparr>videos_ref = 1\<rparr>
     = [Video_init \<lparr>media_title_text = ''A'', media_description_text = ''a'', media_duration_seconds = ''1'', id_text = ''x''\<rparr>,
        Video_init \<lparr>media_title_text = ''B'', media_description_text = ''b'', media_duration_seconds = ''2'', id_text = ''y''\<rparr>]"
proof -
  let ?A = "Video_init \<lparr>media_title_text = ''A'', media_description_text = ''a'', media_duration_seconds = ''1'', id_text = ''x''\<rparr>"
  let ?B = "Video_init \<lparr>media_title_text = ''B'', media_description_text = ''b'', media_duration_seconds = ''2'', id_text = ''y''\<rparr>"
  let ?C = "Video_init \<lparr>media_title_text = ''C'', media_description_text = ''c'', media_duration_seconds = ''3'', id_text = ''z''\<rparr>"
  have h: "(0::nat) < length [[?A, ?B]]" by simp
  from VideoCollection_init_copies[OF h] obtain c h' where
    r: "VideoCollection_init_store [[?A, ?B]] 0 = Some (c, h')"
       "videos_ref c = length [[?A, ?B]]" "h' = [[?A, ?B]] @ [[[?A, ?B]] ! 0]"
       "\<forall>a ys. a \<noteq> videos_ref c \<longrightarrow>
           items_store (h'[a := ys]) c = [[?A, ?B]] ! 0
           \<and> len_store (h'[a := ys]) c = length ([[?A, ?B]] ! 0)"
    by blast
  have c: "c = \<lparr>videos_ref = 1\<rparr>" using r(2) by simp
  have h': "h' = [[?A, ?B], [?A, ?B]]" using r(3) by simp
  have 1: "VideoCollection_init_store [[?A, ?B]] 0 = Some (\<lparr>videos_ref = 1\<rparr>, [[?A, ?B], [?A, ?B]])"
    using r(1) by (simp only: c h')
  have "items_store ([[?A, ?B], [?A, ?B]][0 := [[?A, ?B], [?A, ?B]] ! 0 @ [?C]]) \<lparr>videos_ref = 1\<rparr>
          = [[?A, ?B]] ! 0"
    using r(4)[rule_format, of 0 "[[?A, ?B], [?A, ?B]] ! 0 @ [?C]"] by (simp add: c h')
  then have 2: "items_store (list_append [[?A, ?B], [?A, ?B]] 0 ?C) \<lparr>videos_ref = 1\<rparr> = [?A, ?B]"
    by (simp add: list_append_def)
  show ?thesis by (intro conjI) (rule h, rule 1, rule 2)
qed

section \<open>Facts about urls of a given shape\<close>

lemma match_here_no_lookbehind:
  "\<not> lookbehind_any behind \<Longrightarrow> match_here behind ahead = None"
  by (simp add: lookbehind_any_def match_here_def first_of_def branch1_def branch2_def
      branch3_def branch4_def branch5_def)

lemma search_skip:
  "no_trigger_from behind xs \<Longrightarrow>
     search behind (xs @ c # ys) = search (c # rev xs @ behind) ys"
proof (induction xs arbitrary: behind)
  case Nil
  then show ?case by (simp add: match_here_no_lookbehind)
next
  case (Cons x xs)
  then have "\<not> lookbehind_any behind" and "no_trigger_from (x # behind) xs" by simp_all
  then show ?case using Cons.IH[of "x # behind"] by (simp add: match_here_no_lookbehind)
qed

lemma no_trigger_from_snoc:
  "no_trigger_from behind xs \<Longrightarrow> \<not> lookbehind_any (c # rev xs @ behind) \<Longrightarrow>
     no_trigger_from behind (xs @ [c])"
  by (induction xs arbitrary: behind) simp_all

lemma lookbehind_any_head:
  "c \<noteq> CHR ''='' \<Longrightarrow> c \<noteq> CHR ''/'' \<Longrightarrow> \<not> lookbehind_any (c # b)"
  by (auto simp: lookbehind_any_def lookbehind_vi_eq_def lookbehind_vi_slash_def
      lookbehind_embed_def lookbehind_youtu_be_def)

lemma no_trigger_from_append:
  "no_trigger_from behind xs \<Longrightarrow> \<forall>c\<in>set ws. c \<noteq> CHR ''='' \<and> c \<noteq> CHR ''/'' \<Longrightarrow>
     no_trigger_from behind (xs @ ws)"
proof (induction ws arbitrary: xs)
  case Nil
  then show ?case by simp
next
  case (Cons w ws)
  then have "no_trigger_from behind (xs @ [w])"
    by (intro no_trigger_from_snoc lookbehind_any_head) simp_all
  from Cons.IH[OF this] Cons.prems(2) show ?case by simp
qed

lemma no_trigger_from_prefix:
  "no_trigger_from behind (xs @ ys) \<Longrightarrow> no_trigger_from behind xs"
proof (induction xs arbitrary: behind)
  case Nil
  then show ?case by (cases ys) simp_all
next
  case (Cons x xs)
  then show ?case by simp
qed

lemma takeWhile_run:
  "\<forall>c\<in>set X. P c \<Longrightarrow> tail = [] \<or> \<not> P (hd tail) \<Longrightarrow> takeWhile P (X @ tail) = X"
  by (cases tail) (simp_all add: takeWhile_append2)

lemma greedy_plus_accept_run:
  assumes "X \<noteq> []" "\<forall>c\<in>set X. P c" "tail = [] \<or> \<not> P (hd tail)"
  shows "greedy_plus P (X @ tail) accept = Some X"
proof -
  have tw: "takeWhile P (X @ tail) = X" by (rule takeWhile_run[OF assms(2,3)])
  show ?thesis unfolding greedy_plus_accept tw using assms(1) by simp
qed

lemma greedy_plus_amp_run:
  assumes X: "\<forall>c\<in>set X. not_amp_nl c" and tail: "tail = [] \<or> \<not> not_amp_nl (hd tail)"
    and g: "greedy_plus id_char (X @ tail) lookahead_amp = Some m"
  shows "m = X"
proof -
  let ?s = "X @ tail"
  from g obtain j where j: "0 < j" "j \<le> length (takeWhile id_char ?s)" "m = take j ?s"
    "lookahead_amp (drop j ?s)"
    unfolding greedy_plus_def by (blast dest: backtrack_SomeD)
  have run: "\<forall>c\<in>set (takeWhile id_char ?s). not_amp_nl c"
    by (auto dest: set_takeWhileD intro: id_char_not_amp_nl)
  have pre: "takeWhile id_char ?s = take (length (takeWhile id_char ?s)) ?s"
    by (rule takeWhile_eq_take)
  have upper: "length (takeWhile id_char ?s) \<le> length X"
  proof (rule ccontr)
    assume "\<not> length (takeWhile id_char ?s) \<le> length X"
    then have lt: "length X < length (takeWhile id_char ?s)" by simp
    have "length (takeWhile id_char ?s) \<le> length ?s" by (rule length_takeWhile_le)
    with lt have tne: "tail \<noteq> []" by auto
    have "takeWhile id_char ?s ! length X = ?s ! length X"
      using lt by (rule takeWhile_nth)
    also have "\<dots> = hd tail" using tne by (simp add: nth_append hd_conv_nth)
    finally have "hd tail \<in> set (takeWhile id_char ?s)"
      using lt by (metis nth_mem)
    with run have "not_amp_nl (hd tail)" by blast
    with tail tne show False by simp
  qed
  have lower: "length X \<le> j"
  proof (rule ccontr)
    assume "\<not> length X \<le> j"
    then have lt: "j < length X" by simp
    then have "drop j ?s = X ! j # drop (Suc j) X @ tail"
      by (simp add: Cons_nth_drop_Suc)
    with j(4) have "X ! j = CHR ''&''" by (simp add: lookahead_amp_def)
    moreover have "not_amp_nl (X ! j)" using X lt by simp
    ultimately show False by (simp add: not_amp_nl_def)
  qed
  from upper lower j(2) have "j = length X" by simp
  with j(3) show ?thesis by simp
qed

lemma branch1_run:
  assumes "\<forall>c\<in>set X. not_amp_nl c" "tail = [] \<or> \<not> not_amp_nl (hd tail)"
  shows "branch1 b (X @ tail) = None \<or> branch1 b (X @ tail) = Some X"
proof (cases "branch1 b (X @ tail)")
  case None
  then show ?thesis by simp
next
  case (Some m)
  then have "greedy_plus id_char (X @ tail) lookahead_amp = Some m"
    by (simp add: branch1_def split: if_splits)
  from greedy_plus_amp_run[OF assms this] Some show ?thesis by simp
qed

lemma match_here_eq_position:
  assumes "lookbehind_vi_eq b" "\<not> lookbehind_vi_slash b" "\<not> lookbehind_embed b"
    and "X \<noteq> []" "\<forall>c\<in>set X. not_amp_nl c" "tail = [] \<or> \<not> not_amp_nl (hd tail)"
  shows "match_here b (X @ tail) = Some X"
proof -
  have 4: "branch4 b (X @ tail) = Some X"
    using assms by (simp add: branch4_def greedy_plus_accept_run)
  have 2: "branch2 b (X @ tail) = None" using assms(2) by (simp add: branch2_def)
  have 3: "branch3 b (X @ tail) = None" using assms(3) by (simp add: branch3_def)
  from branch1_run[OF assms(5,6), of b] show ?thesis
    by (auto simp: match_here_def first_of_def 2 3 4)
qed




lemma search_match_here:
  "match_here b s = Some m \<Longrightarrow> search b s = Some m"
  by (cases s) simp_all

section \<open>Facts about the supported url shapes\<close>

lemma re_search_after_eq:
  assumes "no_trigger pre" "t = CHR ''v'' \<or> t = CHR ''i''"
    and "X \<noteq> []" "\<forall>c\<in>set X. not_amp_nl c" "tail = [] \<or> \<not> not_amp_nl (hd tail)"
  shows "re_search (pre @ t # CHR ''='' # X @ tail) = Some X"
proof -
  have nt: "no_trigger_from [] (pre @ [t])"
    using assms(1,2) unfolding no_trigger_def by (intro no_trigger_from_append) auto
  let ?b = "CHR ''='' # rev (pre @ [t]) @ []"
  have skip: "search [] ((pre @ [t]) @ CHR ''='' # X @ tail) = search ?b (X @ tail)"
    by (rule search_skip[OF nt])
  have "lookbehind_vi_eq ?b" "\<not> lookbehind_vi_slash ?b" "\<not> lookbehind_embed ?b"
    using assms(2) by (auto simp: lookbehind_vi_eq_def lookbehind_vi_slash_def lookbehind_embed_def)
  then have "match_here ?b (X @ tail) = Some X"
    using assms(3-5) by (rule match_here_eq_position)
  then have "search ?b (X @ tail) = Some X" by (rule search_match_here)
  with skip show ?thesis by (simp add: re_search_def)
qed





lemma extract_of_re_search:
  "re_search url = Some X \<Longrightarrow> extract_video_id_from_web_url url = Inr X"
  by (simp add: extract_video_id_from_web_url_def)

section \<open>Claims about the supported url shapes\<close>



section \<open>Claims about the order of query parameters\<close>

text \<open>
  Claim C7 fails as stated: a query parameter whose name ends in \<^verbatim>\<open>i\<close> or \<^verbatim>\<open>v\<close>
  is itself matched by the pattern, so the two orders differ.
\<close>

theorem query_order_counterexample:
  "extract_video_id_from_web_url ''http://www.youtube.com/watch?v=9bZkp7q19f0&si=abc''
     = Inr ''9bZkp7q19f0''
   \<and> extract_video_id_from_web_url ''http://www.youtube.com/watch?si=abc&v=9bZkp7q19f0''
     = Inr ''abc''"
  by (intro conjI) code_simp+

text \<open>
  Claim C7, as the code has it.  For every identifier \<open>X\<close> (non-empty, without \<^verbatim>\<open>&\<close>
  and newline) and every parameter text \<open>p\<close> such that no lookbehind of the pattern holds
  in the url up to the \<^verbatim>\<open>&\<close> after \<open>p\<close>, the url with \<^verbatim>\<open>v=X\<close> before \<open>p\<close> and the
  url with \<^verbatim>\<open>v=X\<close> after \<open>p\<close> both give \<open>X\<close>.
\<close>

theorem query_order_insensitive:
  assumes "no_trigger (pre @ p @ ''&'')"
    and "X \<noteq> []" and "\<forall>c\<in>set X. not_amp_nl c"
  shows "extract_video_id_from_web_url (pre @ ''v='' @ X @ ''&'' @ p) = Inr X
       \<and> extract_video_id_from_web_url (pre @ p @ ''&v='' @ X) = Inr X"
proof
  have "no_trigger_from [] (pre @ (p @ ''&''))" using assms(1) by (simp add: no_trigger_def)
  then have nt: "no_trigger pre"
    unfolding no_trigger_def by (rule no_trigger_from_prefix)
  have "re_search (pre @ CHR ''v'' # CHR ''='' # X @ (''&'' @ p)) = Some X"
    by (rule re_search_after_eq[OF nt _ assms(2,3)]) (simp_all add: not_amp_nl_def)
  then show "extract_video_id_from_web_url (pre @ ''v='' @ X @ ''&'' @ p) = Inr X"
    by (simp add: extract_of_re_search)
  have "re_search ((pre @ p @ ''&'') @ CHR ''v'' # CHR ''='' # X @ []) = Some X"
    by (rule re_search_after_eq[OF assms(1) _ assms(2,3)]) simp_all
  then show "extract_video_id_from_web_url (pre @ p @ ''&v='' @ X) = Inr X"
    by (simp add: extract_of_re_search)
qed

text \<open>The two orders of the specification's example both give the identifier.\<close>

theorem query_order_insensitive_witness:
  "no_trigger (''http://www.youtube.com/watch?'' @ ''feature=x'' @ ''&'')
   \<and> list_all not_amp_nl ''9bZkp7q19f0''
   \<and> extract_video_id_from_web_url ''http://www.youtube.com/watch?v=9bZkp7q19f0&feature=x''
        = Inr ''9bZkp7q19f0''
   \<and> extract_video_id_from_web_url ''http://www.youtube.com/watch?feature=x&v=9bZkp7q19f0''
        = Inr ''9bZkp7q19f0''"
proof -
  have nt: "no_trigger (''http://www.youtube.com/watch?'' @ ''feature=x'' @ ''&'')" by code_simp
  have la: "list_all not_amp_nl ''9bZkp7q19f0''" by code_simp
  then have X: "\<forall>c\<in>set ''9bZkp7q19f0''. not_amp_nl c" by (simp only: list_all_iff)
  have ne: "''9bZkp7q19f0'' \<noteq> []" by simp
  note th = query_order_insensitive[OF nt ne X]
  have r1: "extract_video_id_from_web_url ''http://www.youtube.com/watch?v=9bZkp7q19f0&feature=x''
        = Inr ''9bZkp7q19f0''"
    using th[THEN conjunct1] by simp
  have r2: "extract_video_id_from_web_url ''http://www.youtube.com/watch?feature=x&v=9bZkp7q19f0''
        = Inr ''9bZkp7q19f0''"
    using th[THEN conjunct2] by simp
  show ?thesis by (intro conjI) (rule nt, rule la, rule r1, rule r2)
qed

end
